theory Spec2Isabelle
  imports Main "HOL-Library.Sublist"
begin

section \<open>Strings as the script uses them\<close>

text \<open>
  The script \<^verbatim>\<open>gen_favicon.py\<close> works on Python strings. They are modelled as
  \<^typ>\<open>string\<close>, lists of 8-bit characters; URLs and HTML attribute values are taken to
  be ASCII, and on ASCII the operations below are the ones of Python's \<^verbatim>\<open>str\<close>:
  \<^item> \<^verbatim>\<open>s.lower()\<close> maps \<^verbatim>\<open>A..Z\<close> to \<^verbatim>\<open>a..z\<close> and leaves every other character;
  \<^item> \<^verbatim>\<open>kw in s\<close> holds when \<^verbatim>\<open>kw\<close> is a contiguous part of \<^verbatim>\<open>s\<close>;
  \<^item> \<^verbatim>\<open>s.endswith(e)\<close> holds when \<^verbatim>\<open>e\<close> is a suffix of \<^verbatim>\<open>s\<close>;
  \<^item> \<^verbatim>\<open>s.strip()\<close> removes leading and trailing whitespace, which on ASCII is
    the codes 9 to 13, 28 to 31 and 32;
  \<^item> \<^verbatim>\<open>s.split(sep)\<close> with a one-character separator cuts at every occurrence of
    the separator and always returns at least one piece.
\<close>

definition lower_char :: "char \<Rightarrow> char" where
  "lower_char c =
     (let n = (of_char c :: nat) in if 65 \<le> n \<and> n \<le> 90 then char_of (n + 32) else c)"

definition lower :: "string \<Rightarrow> string" where
  "lower s = map lower_char s"

definition str_in :: "string \<Rightarrow> string \<Rightarrow> bool" where
  "str_in kw s = sublist kw s"

definition endswith :: "string \<Rightarrow> string \<Rightarrow> bool" where
  "endswith s e = suffix e s"

definition isspace :: "char \<Rightarrow> bool" where
  "isspace c =
     (let n = (of_char c :: nat) in (9 \<le> n \<and> n \<le> 13) \<or> (28 \<le> n \<and> n \<le> 32))"

definition strip :: "string \<Rightarrow> string" where
  "strip s = rev (dropWhile isspace (rev (dropWhile isspace s)))"

fun split_on :: "char \<Rightarrow> string \<Rightarrow> string list" where
  "split_on sep [] = [[]]"
| "split_on sep (c # cs) =
     (if c = sep then [] # split_on sep cs
      else (case split_on sep cs of
              [] \<Rightarrow> [[c]]
            | p # ps \<Rightarrow> (c # p) # ps))"

text \<open>\<^verbatim>\<open>int(sz)\<close> on a string of decimal digits.\<close>

definition int_of_digits :: "string \<Rightarrow> int" where
  "int_of_digits s = fold (\<lambda>c n. 10 * n + (int (of_char c) - 48)) s 0"

section \<open>Module constants\<close>

definition IMG_EXTS :: "string list" where
  "IMG_EXTS = [''.png'', ''.jpg'', ''.jpeg'', ''.webp'', ''.svg'']"

definition RASTER_PREF :: "string list" where
  "RASTER_PREF = [''.png'', ''.jpg'', ''.jpeg'', ''.webp'']"

section \<open>\<^verbatim>\<open>parse_srcset\<close>\<close>

text \<open>
  The loop over \<^verbatim>\<open>srcset_value.split(",")\<close>, with the list \<^verbatim>\<open>candidates\<close> as its
  accumulator. \<^verbatim>\<open>part.strip().split(" ")[0]\<close> is the first piece of the stripped entry
  cut at the space character; \<^const>\<open>split_on\<close> never returns the empty list, so the
  index 0 exists.
\<close>

fun srcset_loop :: "string list \<Rightarrow> string list \<Rightarrow> string list" where
  "srcset_loop [] candidates = candidates"
| "srcset_loop (part # parts) candidates =
     (let url = hd (split_on (CHR '' '') (strip part))
      in if url \<noteq> [] then srcset_loop parts (candidates @ [url])
         else srcset_loop parts candidates)"

definition parse_srcset :: "string \<Rightarrow> string list" where
  "parse_srcset srcset_value = srcset_loop (split_on (CHR '','') srcset_value) []"

section \<open>\<^verbatim>\<open>score_url\<close>\<close>

text \<open>
  Each \<^verbatim>\<open>for kw, pts in [...]\<close> loop adds \<^verbatim>\<open>pts\<close> to the running score for every
  keyword found in the lowercased URL.
\<close>

fun add_keyword_points :: "string \<Rightarrow> (string \<times> int) list \<Rightarrow> int \<Rightarrow> int" where
  "add_keyword_points l [] score = score"
| "add_keyword_points l ((kw, pts) # rest) score =
     add_keyword_points l rest (if str_in kw l then score + pts else score)"

definition badge_keywords :: "(string \<times> int) list" where
  "badge_keywords =
     [(''cybersecurity'', 12), (''cyber'', 10), (''badge'', 8), (''merit'', 6), (''emblem'', 6)]"

definition penalty_keywords :: "(string \<times> int) list" where
  "penalty_keywords =
     [(''fondo'', -20), (''blanco'', -10), (''liso'', -8), (''background'', -12),
      (''hero'', -8), (''logo'', -15), (''desktop@2x'', -10)]"

definition hosting_keywords :: "(string \<times> int) list" where
  "hosting_keywords =
     [(''wp-content'', 2), (''uploads'', 2), (''cdn'', 2), (''scouting.org'', 1)]"

text \<open>
  \<^verbatim>\<open>for idx, ext in enumerate(RASTER_PREF[::-1], start=1)\<close>: the reversed tuple,
  numbered from 1; every extension the URL ends with adds \<^verbatim>\<open>10 + idx\<close>.
\<close>

fun add_raster_points :: "string \<Rightarrow> (nat \<times> string) list \<Rightarrow> int \<Rightarrow> int" where
  "add_raster_points l [] score = score"
| "add_raster_points l ((idx, ext) # rest) score =
     add_raster_points l rest (if endswith l ext then score + (10 + int idx) else score)"

definition add_svg_points :: "string \<Rightarrow> int \<Rightarrow> int" where
  "add_svg_points l score = (if endswith l ''.svg'' then score + 5 else score)"

text \<open>
  The size loop stops at the first token found (\<^verbatim>\<open>break\<close>).
  \<^verbatim>\<open>int(int(sz) / 128)\<close> divides as a float and truncates; for a non-negative integer
  that is the integer quotient.
\<close>

fun add_size_points :: "string \<Rightarrow> string list \<Rightarrow> int \<Rightarrow> int" where
  "add_size_points l [] score = score"
| "add_size_points l (sz # rest) score =
     (if str_in sz l then score + int_of_digits sz div 128
      else add_size_points l rest score)"

definition size_hints :: "string list" where
  "size_hints = [''2048'', ''1536'', ''1024'', ''768'', ''512'', ''256'', ''128'']"

definition score_url :: "string \<Rightarrow> int" where
  "score_url url =
     (let l = lower url;
          score = 0;
          score = add_keyword_points l badge_keywords score;
          score = add_keyword_points l penalty_keywords score;
          score = add_keyword_points l hosting_keywords score;
          score = add_raster_points l (enumerate 1 (rev RASTER_PREF)) score;
          score = add_svg_points l score;
          score = add_size_points l size_hints score
      in score)"

section \<open>\<^verbatim>\<open>find_candidate_image_urls\<close>: uniquify, filter, sort\<close>

text \<open>
  Lines 64 to 79 of the function walk the parsed HTML (BeautifulSoup) and pool the
  references they find, resolved by \<^verbatim>\<open>urljoin\<close>, in the list \<^verbatim>\<open>urls\<close>. That list is
  the input here; the model is the rest of the function, lines 80 to 91.
  \<^verbatim>\<open>any(u.lower().endswith(ext) for ext in IMG_EXTS)\<close> is \<open>has_img_ext\<close>; the loop
  keeps the list \<^verbatim>\<open>dedup\<close> and the set \<^verbatim>\<open>seen\<close>.
\<close>

definition has_img_ext :: "string \<Rightarrow> bool" where
  "has_img_ext u = list_ex (\<lambda>ext. endswith (lower u) ext) IMG_EXTS"

fun uniquify :: "string list \<Rightarrow> string list \<Rightarrow> string set \<Rightarrow> string list" where
  "uniquify [] dedup seen = dedup"
| "uniquify (u # us) dedup seen =
     (if \<not> has_img_ext u then uniquify us dedup seen
      else if u \<notin> seen then uniquify us (dedup @ [u]) (insert u seen)
      else uniquify us dedup seen)"

text \<open>
  \<^verbatim>\<open>dedup.sort(key=score_url, reverse=True)\<close>: Python's sort is stable, also with
  \<^verbatim>\<open>reverse=True\<close>, so it is the stable sort on the negated key.
\<close>

definition find_candidate_image_urls :: "string list \<Rightarrow> string list" where
  "find_candidate_image_urls urls = sort_key (\<lambda>u. - score_url u) (uniquify urls [] {})"

text \<open>
  The spec's wording of the deduplication, for comparison with \<^const>\<open>uniquify\<close>:
  every URL is kept at its first occurrence and dropped at the later ones.
\<close>

fun spec_first_seen :: "string list \<Rightarrow> string list" where
  "spec_first_seen [] = []"
| "spec_first_seen (u # us) = u # filter (\<lambda>v. v \<noteq> u) (spec_first_seen us)"

text \<open>
  The spec's wording of the source-set parsing, for comparison with
  \<^const>\<open>parse_srcset\<close>: the first whitespace-delimited token of an entry.
\<close>

definition spec_first_token :: "string \<Rightarrow> string" where
  "spec_first_token part = takeWhile (\<lambda>c. \<not> isspace c) (dropWhile isspace part)"

definition spec_parse_srcset :: "string \<Rightarrow> string list" where
  "spec_parse_srcset srcset_value =
     filter (\<lambda>t. t \<noteq> []) (map spec_first_token (split_on (CHR '','') srcset_value))"

section \<open>\<^verbatim>\<open>main\<close>: selection\<close>

datatype error =
    SystemExit string
  | IndexError
  | RequestError string

text \<open>
  A \<^verbatim>\<open>SystemExit\<close> raised with a string prints it and ends the process with status 1,
  as every uncaught exception does.
\<close>

fun exit_status :: "error \<Rightarrow> nat" where
  "exit_status (SystemExit msg) = 1"
| "exit_status IndexError = 1"
| "exit_status (RequestError msg) = 1"

definition bad_keywords :: "string list" where
  "bad_keywords =
     [''fondo'', ''blanco'', ''liso'', ''background'', ''hero'', ''logo'',
      ''scouting-america-logo'']"

definition is_blocked :: "string \<Rightarrow> bool" where
  "is_blocked lu = list_ex (\<lambda>b. str_in b lu) bad_keywords"

definition is_raster :: "string \<Rightarrow> bool" where
  "is_raster lu = list_ex (\<lambda>ext. endswith lu ext) RASTER_PREF"

text \<open>
  The three selection loops differ only in the keyword test, here \<open>wanted\<close>. A blocked
  URL is skipped (\<^verbatim>\<open>continue\<close>); the first URL that passes is assigned to
  \<^verbatim>\<open>chosen\<close> and ends the loop (\<^verbatim>\<open>break\<close>); a loop without a match leaves
  \<^verbatim>\<open>chosen\<close> as it was.
\<close>

fun selection_pass ::
  "(string \<Rightarrow> bool) \<Rightarrow> string list \<Rightarrow> string option \<Rightarrow> string option" where
  "selection_pass wanted [] chosen = chosen"
| "selection_pass wanted (u # us) chosen =
     (let lu = lower u
      in if is_blocked lu then selection_pass wanted us chosen
         else if wanted lu \<and> is_raster lu then Some u
         else selection_pass wanted us chosen)"

text \<open>\<^verbatim>\<open>not chosen\<close> holds for \<^verbatim>\<open>None\<close> and for the empty string.\<close>

definition falsy :: "string option \<Rightarrow> bool" where
  "falsy chosen = (case chosen of None \<Rightarrow> True | Some c \<Rightarrow> c = [])"

text \<open>\<^verbatim>\<open>candidates[0]\<close> raises \<^verbatim>\<open>IndexError\<close> on the empty list.\<close>

definition first_candidate :: "string list \<Rightarrow> error + string" where
  "first_candidate candidates = (case candidates of [] \<Rightarrow> Inl IndexError | c # _ \<Rightarrow> Inr c)"

text \<open>
  The selection of \<^verbatim>\<open>main\<close>, lines 147 to 180: three passes, then twice
  \<^verbatim>\<open>if not chosen: chosen = candidates[0]\<close>.
\<close>

definition choose_candidate :: "string list \<Rightarrow> error + string" where
  "choose_candidate candidates =
     (let chosen = None;
          chosen = selection_pass (\<lambda>lu. str_in ''cyber'' lu) candidates chosen;
          chosen = (if falsy chosen
                    then selection_pass (\<lambda>lu. str_in ''badge'' lu \<or> str_in ''merit'' lu)
                           candidates chosen
                    else chosen);
          chosen = (if falsy chosen then selection_pass (\<lambda>lu. True) candidates chosen
                    else chosen)
      in case (case chosen of
                 None \<Rightarrow> first_candidate candidates
               | Some c \<Rightarrow> if c = [] then first_candidate candidates else Inr c) of
           Inl e \<Rightarrow> Inl e
         | Inr c \<Rightarrow> if c = [] then first_candidate candidates else Inr c)"

section \<open>\<^verbatim>\<open>main\<close>: download, persist, vector substitution, decode\<close>

text \<open>
  What lies outside the script is a parameter of the model:
  \<^item> \<open>http_get\<close>: the answer of \<^verbatim>\<open>requests.get\<close> followed by \<^verbatim>\<open>raise_for_status\<close>
    for a URL, the body or the exception;
  \<^item> \<open>url_path_ext\<close>: \<^verbatim>\<open>os.path.splitext(urlparse(url).path)[1]\<close>;
  \<^item> \<open>image_open\<close>: \<^verbatim>\<open>Image.open(io.BytesIO(data))\<close>, the image or the text of
    the exception.
  The state is the sequence of image requests made and of files written. Writing a file
  is taken to succeed. The messages printed to standard output are left out, and so are
  the resize and the writing of the icon after \<^verbatim>\<open>to_square_rgba\<close>.
\<close>

type_synonym bytes = "char list"

record 'img env =
  http_get :: "string \<Rightarrow> error + bytes"
  url_path_ext :: "string \<Rightarrow> string"
  image_open :: "bytes \<Rightarrow> string + 'img"

record world =
  requested :: "string list"
  written :: "(string \<times> bytes) list"

text \<open>The content of a file after the run is that of the last write to its path.\<close>

definition file_content :: "world \<Rightarrow> string \<Rightarrow> bytes option" where
  "file_content w path = map_of (rev (written w)) path"

definition ASSETS_IMG_DIR :: string where
  "ASSETS_IMG_DIR = ''/workspace/assets/img''"

definition DOWNLOADED_BASENAME :: string where
  "DOWNLOADED_BASENAME = ''cybersecurity-badge-source''"

definition download_bytes ::
  "'img env \<Rightarrow> string \<Rightarrow> world \<Rightarrow> (error + bytes) \<times> world" where
  "download_bytes env url w = (http_get env url, w\<lparr>requested := requested w @ [url]\<rparr>)"

text \<open>\<^verbatim>\<open>ext = os.path.splitext(parsed.path)[1] or ".img"\<close>\<close>

definition source_ext :: "'img env \<Rightarrow> string \<Rightarrow> string" where
  "source_ext env chosen =
     (let ext = url_path_ext env chosen in if ext = [] then ''.img'' else ext)"

definition out_src_path :: "string \<Rightarrow> string" where
  "out_src_path ext = ASSETS_IMG_DIR @ ''/'' @ DOWNLOADED_BASENAME @ ext"

definition save_source :: "string \<Rightarrow> bytes \<Rightarrow> world \<Rightarrow> world" where
  "save_source ext data w = w\<lparr>written := written w @ [(out_src_path ext, data)]\<rparr>"

text \<open>
  The loop of the vector substitution: the first candidate whose lowercased URL ends in
  a raster extension is downloaded and saved, and the loop ends; without such a
  candidate \<^verbatim>\<open>chosen\<close> and \<^verbatim>\<open>data\<close> stay as they are.
\<close>

fun switch_to_raster ::
  "'img env \<Rightarrow> string list \<Rightarrow> string \<times> bytes \<Rightarrow> world \<Rightarrow> (error + string \<times> bytes) \<times> world"
  where
  "switch_to_raster env [] cur w = (Inr cur, w)"
| "switch_to_raster env (u # us) cur w =
     (if is_raster (lower u)
      then (case download_bytes env u w of
              (Inl e, w') \<Rightarrow> (Inl e, w')
            | (Inr data, w') \<Rightarrow> (Inr (u, data), save_source (source_ext env u) data w'))
      else switch_to_raster env us cur w)"

record 'img opened =
  opened_url :: string
  opened_data :: bytes
  opened_image :: 'img

text \<open>
  The \<^verbatim>\<open>try\<close> block around \<^verbatim>\<open>Image.open\<close>: any exception becomes a
  \<^verbatim>\<open>SystemExit\<close> whose message names the chosen URL.
\<close>

definition open_image :: "'img env \<Rightarrow> string \<Rightarrow> bytes \<Rightarrow> error + 'img opened" where
  "open_image env chosen data =
     (case image_open env data of
        Inl e \<Rightarrow> Inl (SystemExit (''Failed to open image from '' @ chosen @ '': '' @ e))
      | Inr img \<Rightarrow> Inr \<lparr>opened_url = chosen, opened_data = data, opened_image = img\<rparr>)"

text \<open>
  \<^verbatim>\<open>main\<close> from the call of \<^verbatim>\<open>find_candidate_image_urls\<close> to \<^verbatim>\<open>Image.open\<close>. The
  result is the error that ends the run, or the chosen URL with the bytes and the image
  that go on to \<^verbatim>\<open>to_square_rgba\<close>.
\<close>

definition main ::
  "'img env \<Rightarrow> string list \<Rightarrow> world \<Rightarrow> (error + 'img opened) \<times> world" where
  "main env urls w =
     (let candidates = find_candidate_image_urls urls
      in if candidates = [] then (Inl (SystemExit ''No candidate images found on page''), w)
         else
           (case choose_candidate candidates of
              Inl e \<Rightarrow> (Inl e, w)
            | Inr chosen \<Rightarrow>
                (case download_bytes env chosen w of
                   (Inl e, w) \<Rightarrow> (Inl e, w)
                 | (Inr data, w) \<Rightarrow>
                     (let ext = source_ext env chosen;
                          w = save_source ext data w
                      in case (if lower ext = ''.svg''
                               then switch_to_raster env candidates (chosen, data) w
                               else (Inr (chosen, data), w)) of
                           (Inl e, w) \<Rightarrow> (Inl e, w)
                         | (Inr (chosen, data), w) \<Rightarrow> (open_image env chosen data, w)))))"

text \<open>
  An environment for the examples: a server that has a vector image and a raster
  image, and the path extensions of their URLs.
\<close>

definition example_env :: "nat env" where
  "example_env =
     \<lparr>http_get = (\<lambda>u. if u = ''http://h/a.svg'' then Inr ''<svg/>''
                       else if u = ''http://h/logo.png'' then Inr ''PNG''
                       else Inl (RequestError u)),
      url_path_ext = (\<lambda>u. if u = ''http://h/a.svg'' then ''.svg''
                           else if u = ''http://h/logo.png'' then ''.png'' else []),
      image_open = (\<lambda>d. if d = ''PNG'' then Inr 1 else Inl ''cannot identify image file'')\<rparr>"

definition empty_world :: world where
  "empty_world = \<lparr>requested = [], written = []\<rparr>"

section \<open>\<^verbatim>\<open>to_square_rgba\<close>\<close>

text \<open>
  The function computes the side of the square, the crop box, the boxes of the two
  ellipses and the width of the ring, and hands them to the imaging library. The
  library calls are parameters of the model, over any type of images:
  \<^verbatim>\<open>img.mode\<close>, \<^verbatim>\<open>img.size\<close>, \<^verbatim>\<open>img.convert\<close>, \<^verbatim>\<open>img.crop\<close>, \<^verbatim>\<open>Image.new\<close>, the
  drawing of an ellipse into an image, \<^verbatim>\<open>paste\<close> with a mask and
  \<^verbatim>\<open>Image.alpha_composite\<close>. A call that changes its image in place returns the
  changed image here.
\<close>

type_synonym box = "int \<times> int \<times> int \<times> int"

datatype colour = Grey nat | RGBA nat nat nat nat

datatype draw_error = ValueError string

record 'im pillow =
  pil_mode :: "'im \<Rightarrow> string"
  pil_size :: "'im \<Rightarrow> nat \<times> nat"
  pil_convert :: "'im \<Rightarrow> string \<Rightarrow> 'im"
  pil_crop :: "'im \<Rightarrow> box \<Rightarrow> 'im"
  pil_new :: "string \<Rightarrow> nat \<times> nat \<Rightarrow> colour \<Rightarrow> 'im"
  pil_ellipse :: "'im \<Rightarrow> box \<Rightarrow> colour option \<Rightarrow> colour option \<Rightarrow> nat \<Rightarrow> 'im"
  pil_paste :: "'im \<Rightarrow> 'im \<Rightarrow> int \<times> int \<Rightarrow> 'im \<Rightarrow> 'im"
  pil_alpha_composite :: "'im \<Rightarrow> 'im \<Rightarrow> 'im"

text \<open>
  \<^verbatim>\<open>ImageDraw.ellipse(xy, fill, outline, width)\<close> checks its box before it draws: a
  box whose second corner lies left of or above the first raises \<^verbatim>\<open>ValueError\<close>.
\<close>

definition ellipse ::
  "'im pillow \<Rightarrow> 'im \<Rightarrow> box \<Rightarrow> colour option \<Rightarrow> colour option \<Rightarrow> nat \<Rightarrow> draw_error + 'im"
  where
  "ellipse pil im xy fill outline width =
     (case xy of
        (x0, y0, x1, y1) \<Rightarrow>
          if x1 < x0 then Inl (ValueError ''x1 must be greater than or equal to x0'')
          else if y1 < y0 then Inl (ValueError ''y1 must be greater than or equal to y0'')
          else Inr (pil_ellipse pil im xy fill outline width))"

text \<open>
  Lines 104 to 108: \<^verbatim>\<open>side = min(w, h)\<close>, \<^verbatim>\<open>left = (w - side) // 2\<close>,
  \<^verbatim>\<open>top = (h - side) // 2\<close> and the box
  \<^verbatim>\<open>(left, top, left + side, top + side)\<close>.
\<close>

definition crop_box :: "nat \<Rightarrow> nat \<Rightarrow> box" where
  "crop_box w h =
     (let side = min w h;
          left = (int w - int side) div 2;
          top = (int h - int side) div 2
      in (left, top, left + int side, top + int side))"

text \<open>Line 120, the box of the mask, and line 128, the box and the width of the ring.\<close>

definition mask_box :: "nat \<Rightarrow> box" where
  "mask_box side = (0, 0, int side - 1, int side - 1)"

definition ring_box :: "nat \<Rightarrow> box" where
  "ring_box side = (1, 1, int side - 2, int side - 2)"

definition ring_width :: "nat \<Rightarrow> nat" where
  "ring_width side = max 1 (side div 32)"

text \<open>Lines 102 and 103: an image in another mode than RGBA and LA is converted.\<close>

definition ensure_rgba :: "'im pillow \<Rightarrow> 'im \<Rightarrow> 'im" where
  "ensure_rgba pil img =
     (if pil_mode pil img \<noteq> ''RGBA'' \<and> pil_mode pil img \<noteq> ''LA''
      then pil_convert pil img ''RGBA'' else img)"

text \<open>
  The function, lines 100 to 131. The images made in lines 110 to 115 and not used are
  left out.
\<close>

definition to_square_rgba :: "'im pillow \<Rightarrow> 'im \<Rightarrow> draw_error + 'im" where
  "to_square_rgba pil img =
     (let img = ensure_rgba pil img;
          (w, h) = pil_size pil img;
          side = min w h;
          img_cropped = pil_crop pil img (crop_box w h);
          mask = pil_new pil ''L'' (side, side) (Grey 0)
      in case ellipse pil mask (mask_box side) (Some (Grey 255)) None 1 of
           Inl e \<Rightarrow> Inl e
         | Inr mask \<Rightarrow>
             (let base = pil_new pil ''RGBA'' (side, side) (RGBA 0 0 0 0);
                  base = pil_paste pil base img_cropped (0, 0) mask;
                  ring = pil_new pil ''RGBA'' (side, side) (RGBA 0 0 0 0)
              in case ellipse pil ring (ring_box side) None (Some (RGBA 255 215 0 180))
                        (ring_width side) of
                   Inl e \<Rightarrow> Inl e
                 | Inr ring \<Rightarrow> Inr (pil_alpha_composite pil base ring)))"

text \<open>
  An imaging library for the examples that keeps the mode and the size of an image and
  forgets its pixels: a conversion sets the mode, a crop gives the size of its box, a
  new image has the mode and size asked for, and drawing, pasting and compositing leave
  mode and size as they are.
\<close>

record shape =
  shape_mode :: string
  shape_size :: "nat \<times> nat"

definition shape_pillow :: "shape pillow" where
  "shape_pillow =
     \<lparr>pil_mode = shape_mode,
      pil_size = shape_size,
      pil_convert = (\<lambda>im m. im\<lparr>shape_mode := m\<rparr>),
      pil_crop = (\<lambda>im xy. case xy of
                    (x0, y0, x1, y1) \<Rightarrow> im\<lparr>shape_size := (nat (x1 - x0), nat (y1 - y0))\<rparr>),
      pil_new = (\<lambda>m sz c. \<lparr>shape_mode = m, shape_size = sz\<rparr>),
      pil_ellipse = (\<lambda>im xy fill outline width. im),
      pil_paste = (\<lambda>im src at mask. im),
      pil_alpha_composite = (\<lambda>im1 im2. im1)\<rparr>"

section \<open>Properties of the scoring\<close>

lemma add_keyword_points_shift:
  "add_keyword_points l tbl score = score + add_keyword_points l tbl 0"
proof (induction tbl arbitrary: score)
  case Nil
  show ?case by simp
next
  case (Cons e tbl)
  obtain kw pts where e: "e = (kw, pts)" by (cases e)
  show ?case
    using Cons.IH [of "score + pts"] Cons.IH [of pts] Cons.IH [of score]
    by (simp add: e)
qed

lemma add_raster_points_shift:
  "add_raster_points l tbl score = score + add_raster_points l tbl 0"
proof (induction tbl arbitrary: score)
  case Nil
  show ?case by simp
next
  case (Cons e tbl)
  obtain idx ext where e: "e = (idx, ext)" by (cases e)
  show ?case
    using Cons.IH [of "score + (10 + int idx)"] Cons.IH [of "10 + int idx"] Cons.IH [of score]
    by (simp add: e)
qed

lemma add_size_points_shift:
  "add_size_points l szs score = score + add_size_points l szs 0"
  by (induction szs) simp_all

lemma endswith_exclusive:
  assumes "endswith l a" "endswith l b" "\<not> suffix a b" "\<not> suffix b a"
  shows False
  using assms suffix_same_cases [of a l b] by (simp add: endswith_def)

lemma raster_table:
  "enumerate 1 (rev RASTER_PREF) = [(1, ''.webp''), (2, ''.jpeg''), (3, ''.jpg''), (4, ''.png'')]"
  by code_simp

lemma ext_incomparable:
  "\<not> suffix ''.png'' ''.jpg''" "\<not> suffix ''.jpg'' ''.png''"
  "\<not> suffix ''.png'' ''.jpeg''" "\<not> suffix ''.jpeg'' ''.png''"
  "\<not> suffix ''.png'' ''.webp''" "\<not> suffix ''.webp'' ''.png''"
  "\<not> suffix ''.png'' ''.svg''" "\<not> suffix ''.svg'' ''.png''"
  "\<not> suffix ''.jpg'' ''.jpeg''" "\<not> suffix ''.jpeg'' ''.jpg''"
  "\<not> suffix ''.jpg'' ''.webp''" "\<not> suffix ''.webp'' ''.jpg''"
  "\<not> suffix ''.jpg'' ''.svg''" "\<not> suffix ''.svg'' ''.jpg''"
  "\<not> suffix ''.jpeg'' ''.webp''" "\<not> suffix ''.webp'' ''.jpeg''"
  "\<not> suffix ''.jpeg'' ''.svg''" "\<not> suffix ''.svg'' ''.jpeg''"
  "\<not> suffix ''.webp'' ''.svg''" "\<not> suffix ''.svg'' ''.webp''"
  by code_simp+

lemma format_points:
  "add_svg_points l (add_raster_points l (enumerate 1 (rev RASTER_PREF)) score) =
     score + (if endswith l ''.png'' then 14 else if endswith l ''.jpg'' then 13
              else if endswith l ''.jpeg'' then 12 else if endswith l ''.webp'' then 11
              else if endswith l ''.svg'' then 5 else 0)"
  unfolding raster_table
  using endswith_exclusive [of l] ext_incomparable
  apply (simp add: add_svg_points_def)
  apply blast
  done

lemma score_url_parts:
  "score_url url =
     add_keyword_points (lower url) badge_keywords 0
     + add_keyword_points (lower url) penalty_keywords 0
     + add_keyword_points (lower url) hosting_keywords 0
     + add_svg_points (lower url)
         (add_raster_points (lower url) (enumerate 1 (rev RASTER_PREF)) 0)
     + add_size_points (lower url) size_hints 0"
proof -
  let ?l = "lower url"
  let ?a = "add_keyword_points ?l badge_keywords 0"
  let ?b = "add_keyword_points ?l penalty_keywords ?a"
  let ?c = "add_keyword_points ?l hosting_keywords ?b"
  let ?d = "add_svg_points ?l (add_raster_points ?l (enumerate 1 (rev RASTER_PREF)) ?c)"
  have "score_url url = add_size_points ?l size_hints ?d"
    by (simp add: score_url_def Let_def)
  also have "\<dots> = ?d + add_size_points ?l size_hints 0"
    by (rule add_size_points_shift)
  also have "?d = ?c + add_svg_points ?l (add_raster_points ?l (enumerate 1 (rev RASTER_PREF)) 0)"
    unfolding format_points by simp
  also have "?c = ?b + add_keyword_points ?l hosting_keywords 0"
    by (rule add_keyword_points_shift)
  also have "?b = ?a + add_keyword_points ?l penalty_keywords 0"
    by (rule add_keyword_points_shift)
  finally show ?thesis .
qed

text \<open>
  C1, as the code has it. The format bonus of a URL is what lines 50 to 54 add to the
  score: 14 for a lowercased URL ending in \<^verbatim>\<open>.png\<close>, 13 for \<^verbatim>\<open>.jpg\<close>, 12 for
  \<^verbatim>\<open>.jpeg\<close>, 11 for \<^verbatim>\<open>.webp\<close>, a flat 5 for \<^verbatim>\<open>.svg\<close> and nothing otherwise. The
  bonus of a raster extension lies between 11 and 14, and the order of preference is
  png, jpg, jpeg, webp: the first entry of \<^verbatim>\<open>RASTER_PREF\<close> receives the highest
  increment, so \<^verbatim>\<open>.png\<close> gets the largest raster bonus and \<^verbatim>\<open>.webp\<close> the smallest.
\<close>

theorem score_url_format_bonus:
  "score_url url =
     add_keyword_points (lower url) badge_keywords 0
     + add_keyword_points (lower url) penalty_keywords 0
     + add_keyword_points (lower url) hosting_keywords 0
     + (if endswith (lower url) ''.png'' then 14
        else if endswith (lower url) ''.jpg'' then 13
        else if endswith (lower url) ''.jpeg'' then 12
        else if endswith (lower url) ''.webp'' then 11
        else if endswith (lower url) ''.svg'' then 5 else 0)
     + add_size_points (lower url) size_hints 0"
  unfolding score_url_parts [of url] format_points [of "lower url" 0] by simp

text \<open>
  C1 as the spec states it fails: a URL ending in \<^verbatim>\<open>.webp\<close> does not get the largest
  raster bonus. Two URLs with no keyword and no size hint, whose scores are their format
  bonuses: the one in \<^verbatim>\<open>.webp\<close> scores 11, the one in \<^verbatim>\<open>.png\<close> scores 14.
\<close>

theorem webp_bonus_not_largest:
  "score_url ''x.webp'' = 11 \<and> score_url ''x.png'' = 14
   \<and> \<not> score_url ''x.png'' \<le> score_url ''x.webp''"
  by code_simp

text \<open>
  C7. The score is a function of the URL string alone, and two URLs that differ only in
  letter case, that is with the same lowercased form, have the same score.
\<close>

theorem score_url_case_insensitive:
  "lower a = lower b \<Longrightarrow> score_url a = score_url b"
  by (simp add: score_url_def)

theorem score_url_case_insensitive_witness:
  "lower ''Cyber-Badge.PNG'' = lower ''cyber-badge.png''
   \<and> score_url ''Cyber-Badge.PNG'' = score_url ''cyber-badge.png''
   \<and> score_url ''cyber-badge.png'' = 32"
proof -
  have h: "lower ''Cyber-Badge.PNG'' = lower ''cyber-badge.png''" by code_simp
  have v: "score_url ''cyber-badge.png'' = 32" by code_simp
  from h score_url_case_insensitive [OF h] v show ?thesis by blast
qed

lemma str_in_trans:
  assumes "str_in a b" "str_in b c"
  shows "str_in a c"
proof -
  obtain p s where b: "b = p @ a @ s"
    using assms(1) by (auto simp: str_in_def sublist_def)
  obtain q t where c: "c = q @ b @ t"
    using assms(2) by (auto simp: str_in_def sublist_def)
  have "c = (q @ p) @ a @ (s @ t)"
    by (simp add: b c)
  then show ?thesis
    unfolding str_in_def sublist_def by blast
qed

lemma cyber_in_cybersecurity: "str_in ''cyber'' ''cybersecurity''"
  by code_simp

text \<open>
  C10. When the lowercased URL contains \<^verbatim>\<open>cybersecurity\<close> it contains \<^verbatim>\<open>cyber\<close> too,
  both checks of the first keyword loop succeed, and the score is 12 + 10 = 22 plus what
  the remaining keywords, the format and the size hint contribute.
\<close>

theorem cybersecurity_counts_twice:
  assumes "str_in ''cybersecurity'' (lower url)"
  shows "str_in ''cyber'' (lower url)
    \<and> add_keyword_points (lower url) badge_keywords 0 =
        12 + 10 + add_keyword_points (lower url) (drop 2 badge_keywords) 0
    \<and> score_url url =
        22 + add_keyword_points (lower url) (drop 2 badge_keywords) 0
        + add_keyword_points (lower url) penalty_keywords 0
        + add_keyword_points (lower url) hosting_keywords 0
        + add_svg_points (lower url)
            (add_raster_points (lower url) (enumerate 1 (rev RASTER_PREF)) 0)
        + add_size_points (lower url) size_hints 0"
proof -
  let ?l = "lower url"
  have c: "str_in ''cyber'' ?l"
    using cyber_in_cybersecurity assms by (rule str_in_trans)
  have "add_keyword_points ?l badge_keywords 0 =
          add_keyword_points ?l (drop 2 badge_keywords) 22"
    using assms c by (simp add: badge_keywords_def)
  then have k: "add_keyword_points ?l badge_keywords 0 =
          12 + 10 + add_keyword_points ?l (drop 2 badge_keywords) 0"
    using add_keyword_points_shift [of ?l "drop 2 badge_keywords" 22] by simp
  show ?thesis
    using c k score_url_parts [of url] by simp
qed

theorem cybersecurity_counts_twice_witness:
  "str_in ''cybersecurity'' (lower ''Cybersecurity.svg'')
   \<and> str_in ''cyber'' (lower ''Cybersecurity.svg'')
   \<and> add_keyword_points (lower ''Cybersecurity.svg'') badge_keywords 0 = 22
   \<and> score_url ''Cybersecurity.svg'' = 27"
proof -
  have h: "str_in ''cybersecurity'' (lower ''Cybersecurity.svg'')" by code_simp
  have r: "add_keyword_points (lower ''Cybersecurity.svg'') (drop 2 badge_keywords) 0 = 0"
    by code_simp
  have v: "score_url ''Cybersecurity.svg'' = 27" by code_simp
  from h r v cybersecurity_counts_twice [OF h] show ?thesis by simp
qed


section \<open>Properties of \<^verbatim>\<open>parse_srcset\<close>\<close>

lemma split_on_nonempty: "split_on sep s \<noteq> []"
  by (induction s) (auto split: list.splits)

lemma hd_split_on: "hd (split_on sep s) = takeWhile (\<lambda>c. c \<noteq> sep) s"
  using split_on_nonempty [of sep] by (induction s) (auto split: list.splits)

lemma split_on_pieces: "p \<in> set (split_on sep s) \<Longrightarrow> sep \<notin> set p \<and> set p \<subseteq> set s"
proof (induction s arbitrary: p)
  case Nil
  then show ?case by simp
next
  case (Cons c cs)
  show ?case
  proof (cases "c = sep")
    case True
    with Cons show ?thesis by auto
  next
    case False
    obtain q qs where q: "split_on sep cs = q # qs"
      using split_on_nonempty [of sep cs] by (cases "split_on sep cs") auto
    have "p = c # q \<or> p \<in> set qs"
      using Cons.prems False q by simp
    then show ?thesis
    proof
      assume "p = c # q"
      moreover have "sep \<notin> set q \<and> set q \<subseteq> set cs"
        using Cons.IH [of q] q by simp
      ultimately show ?thesis using False by auto
    next
      assume "p \<in> set qs"
      then have "sep \<notin> set p \<and> set p \<subseteq> set cs"
        using Cons.IH [of p] q by simp
      then show ?thesis by auto
    qed
  qed
qed

lemma srcset_loop_eq:
  "srcset_loop parts candidates =
     candidates @ filter (\<lambda>t. t \<noteq> [])
       (map (\<lambda>part. takeWhile (\<lambda>c. c \<noteq> CHR '' '') (strip part)) parts)"
  by (induction parts arbitrary: candidates) (simp_all add: hd_split_on Let_def)

text \<open>
  What the loop computes. The string is cut at every comma; every entry is stripped of
  the whitespace around it and then cut at the first space character (code 32): the
  token is the part before it. Entries whose token is empty are dropped, and the tokens
  come in the order of the entries.
\<close>

theorem parse_srcset_tokens:
  "parse_srcset srcset_value =
     filter (\<lambda>t. t \<noteq> [])
       (map (\<lambda>part. takeWhile (\<lambda>c. c \<noteq> CHR '' '') (strip part))
          (split_on (CHR '','') srcset_value))"
  by (simp add: parse_srcset_def srcset_loop_eq)

text \<open>
  C6. The parser is to return, for every entry, its first whitespace-delimited token,
  the URL before the descriptor. The code strips every kind of whitespace around an
  entry and then cuts the token at the space character only. With a tab between the URL
  and the descriptor the first whitespace-delimited token is the URL \<^verbatim>\<open>a.png\<close>, and
  the code returns URL, tab and descriptor as one token, which is not a URL of the
  attribute and does not end in an image extension.
\<close>

theorem parse_srcset_tab_descriptor:
  "parse_srcset (''a.png'' @ [CHR 0x09] @ ''2x, b.png 1x'') =
     [''a.png'' @ [CHR 0x09] @ ''2x'', ''b.png'']
   \<and> spec_parse_srcset (''a.png'' @ [CHR 0x09] @ ''2x, b.png 1x'') = [''a.png'', ''b.png'']
   \<and> parse_srcset (''a.png'' @ [CHR 0x09] @ ''2x, b.png 1x'')
       \<noteq> spec_parse_srcset (''a.png'' @ [CHR 0x09] @ ''2x, b.png 1x'')
   \<and> has_img_ext ''a.png''
   \<and> \<not> has_img_ext (''a.png'' @ [CHR 0x09] @ ''2x'')"
  by code_simp

text \<open>
  The code misses the first whitespace-delimited token only there: when the space
  character is the only whitespace in the attribute, it returns that token for every
  entry.
\<close>

lemma takeWhile_append_failing:
  "(\<And>x. x \<in> set ws \<Longrightarrow> \<not> P x) \<Longrightarrow> takeWhile P (qs @ ws) = takeWhile P qs"
  by (induction qs) (auto simp: takeWhile_eq_Nil_iff)

lemma isspace_space: "isspace (CHR '' '')"
  by code_simp

lemma first_token_agrees:
  assumes "\<And>c. c \<in> set part \<Longrightarrow> isspace c \<Longrightarrow> c = CHR '' ''"
  shows "takeWhile (\<lambda>c. c \<noteq> CHR '' '') (strip part) = spec_first_token part"
proof -
  let ?q = "dropWhile isspace part"
  let ?ws = "rev (takeWhile isspace (rev ?q))"
  have sub: "set ?q \<subseteq> set part"
    by (rule set_dropWhileD [THEN subsetI])
  have q: "?q = strip part @ ?ws"
  proof -
    have "rev (takeWhile isspace (rev ?q) @ dropWhile isspace (rev ?q)) = rev (rev ?q)"
      by (simp only: takeWhile_dropWhile_id)
    then show ?thesis
      unfolding strip_def rev_append rev_rev_ident by (rule sym)
  qed
  have ws: "\<not> x \<noteq> CHR '' ''" if "x \<in> set ?ws" for x
  proof -
    from that have "x \<in> set (takeWhile isspace (rev ?q))" by simp
    then have "isspace x" and "x \<in> set ?q"
      by (auto dest: set_takeWhileD)
    with sub assms [of x] show ?thesis by auto
  qed
  have "takeWhile (\<lambda>c. c \<noteq> CHR '' '') ?q = takeWhile (\<lambda>c. c \<noteq> CHR '' '') (strip part)"
    using takeWhile_append_failing [of ?ws "\<lambda>c. c \<noteq> CHR '' ''" "strip part"] ws q
    by metis
  moreover have "takeWhile (\<lambda>c. c \<noteq> CHR '' '') ?q = takeWhile (\<lambda>c. \<not> isspace c) ?q"
  proof (rule takeWhile_cong [OF refl])
    fix x assume "x \<in> set ?q"
    with sub assms [of x] isspace_space show "(x \<noteq> CHR '' '') = (\<not> isspace x)"
      by auto
  qed
  ultimately show ?thesis
    by (simp add: spec_first_token_def)
qed

lemma parse_srcset_agrees:
  assumes "\<And>c. c \<in> set srcset_value \<Longrightarrow> isspace c \<Longrightarrow> c = CHR '' ''"
  shows "parse_srcset srcset_value = spec_parse_srcset srcset_value"
proof -
  have m: "map (\<lambda>part. takeWhile (\<lambda>c. c \<noteq> CHR '' '') (strip part))
          (split_on (CHR '','') srcset_value) =
        map spec_first_token (split_on (CHR '','') srcset_value)"
  proof (rule map_cong [OF refl])
    fix part assume "part \<in> set (split_on (CHR '','') srcset_value)"
    then have "set part \<subseteq> set srcset_value"
      using split_on_pieces by blast
    then show "takeWhile (\<lambda>c. c \<noteq> CHR '' '') (strip part) = spec_first_token part"
      using assms by (intro first_token_agrees) auto
  qed
  show ?thesis
    unfolding parse_srcset_def srcset_loop_eq spec_parse_srcset_def m by simp
qed

section \<open>Properties of the discovery\<close>

lemma spec_first_seen_set: "set (spec_first_seen us) = set us"
  by (induction us) auto

lemma spec_first_seen_distinct: "distinct (spec_first_seen us)"
  by (induction us) (auto simp: spec_first_seen_set)

lemma uniquify_eq:
  "uniquify urls dedup (set dedup) =
     dedup @ filter (\<lambda>u. u \<notin> set dedup) (spec_first_seen (filter has_img_ext urls))"
proof (induction urls arbitrary: dedup)
  case Nil
  show ?case by simp
next
  case (Cons u us)
  let ?rest = "spec_first_seen (filter has_img_ext us)"
  show ?case
  proof (cases "has_img_ext u")
    case False
    then show ?thesis using Cons.IH [of dedup] by simp
  next
    case True
    show ?thesis
    proof (cases "u \<in> set dedup")
      case True
      have "filter (\<lambda>v. v \<notin> set dedup) (filter (\<lambda>v. v \<noteq> u) ?rest) =
              filter (\<lambda>v. v \<notin> set dedup) ?rest"
        using True by (auto simp: filter_filter intro: filter_cong)
      then show ?thesis
        using True \<open>has_img_ext u\<close> Cons.IH [of dedup] by simp
    next
      case False
      have "filter (\<lambda>v. v \<notin> set (dedup @ [u])) ?rest =
              filter (\<lambda>v. v \<notin> set dedup) (filter (\<lambda>v. v \<noteq> u) ?rest)"
        by (auto simp: filter_filter intro: filter_cong)
      then show ?thesis
        using False \<open>has_img_ext u\<close> Cons.IH [of "dedup @ [u]"] by simp
    qed
  qed
qed

lemma uniquify_first_seen:
  "uniquify urls [] {} = spec_first_seen (filter has_img_ext urls)"
  using uniquify_eq [of urls "[]"] by simp

lemma count_list_distinct: "distinct xs \<Longrightarrow> count_list xs x = (if x \<in> set xs then 1 else 0)"
  by (induction xs) auto

text \<open>
  C4. The output of the discovery is the list of the references that end, lowercased,
  in one of the extensions of \<^verbatim>\<open>IMG_EXTS\<close>, each kept at its first occurrence, sorted
  by the stable sort on the descending score. So every URL of the output has such an
  extension, a URL occurs once if it is a reference with such an extension and not at
  all otherwise, the scores descend along the output, and URLs of equal score are in
  first-seen order.
\<close>

theorem discovery_output:
  "find_candidate_image_urls urls =
     sort_key (\<lambda>u. - score_url u) (spec_first_seen (filter has_img_ext urls))
   \<and> list_all (\<lambda>u. list_ex (\<lambda>ext. endswith (lower u) ext)
                  [''.png'', ''.jpg'', ''.jpeg'', ''.webp'', ''.svg''])
        (find_candidate_image_urls urls)
   \<and> (\<forall>u. count_list (find_candidate_image_urls urls) u =
            (if u \<in> set urls \<and> has_img_ext u then 1 else 0))
   \<and> sorted_wrt (\<lambda>a b. score_url a \<ge> score_url b) (find_candidate_image_urls urls)
   \<and> (\<forall>k. filter (\<lambda>u. score_url u = k) (find_candidate_image_urls urls) =
            filter (\<lambda>u. score_url u = k) (spec_first_seen (filter has_img_ext urls)))"
proof -
  let ?d = "spec_first_seen (filter has_img_ext urls)"
  let ?out = "find_candidate_image_urls urls"
  have out: "?out = sort_key (\<lambda>u. - score_url u) ?d"
    by (simp add: find_candidate_image_urls_def uniquify_first_seen)
  have set_out: "set ?out = {u \<in> set urls. has_img_ext u}"
    by (auto simp: out spec_first_seen_set)
  have ext: "list_all (\<lambda>u. list_ex (\<lambda>ext. endswith (lower u) ext)
                  [''.png'', ''.jpg'', ''.jpeg'', ''.webp'', ''.svg'']) ?out"
    using set_out unfolding list_all_iff has_img_ext_def IMG_EXTS_def by blast
  have "distinct ?out"
    by (simp add: out spec_first_seen_distinct)
  then have once: "\<forall>u. count_list ?out u = (if u \<in> set urls \<and> has_img_ext u then 1 else 0)"
    using set_out by (simp add: count_list_distinct)
  have "sorted (map (\<lambda>u. - score_url u) ?out)"
    by (simp add: out)
  then have desc: "sorted_wrt (\<lambda>a b. score_url a \<ge> score_url b) ?out"
    by (simp add: sorted_wrt_map)
  have stable: "\<forall>k. filter (\<lambda>u. score_url u = k) ?out = filter (\<lambda>u. score_url u = k) ?d"
  proof
    fix k
    have "filter (\<lambda>u. - score_url u = - k) (sort_key (\<lambda>u. - score_url u) ?d) =
            filter (\<lambda>u. - score_url u = - k) ?d"
      by (rule sort_key_stable)
    then show "filter (\<lambda>u. score_url u = k) ?out = filter (\<lambda>u. score_url u = k) ?d"
      by (simp add: out)
  qed
  show ?thesis
    by (rule conjI [OF out conjI [OF ext conjI [OF once conjI [OF desc stable]]]])
qed

theorem discovery_output_witness:
  "find_candidate_image_urls
     [''h/b.svg'', ''h/x.txt'', ''h/a.PNG'', ''h/b.svg'', ''h/c.png'', ''h/a.PNG''] =
     [''h/a.PNG'', ''h/c.png'', ''h/b.svg'']
   \<and> count_list (find_candidate_image_urls
        [''h/b.svg'', ''h/x.txt'', ''h/a.PNG'', ''h/b.svg'', ''h/c.png'', ''h/a.PNG''])
        ''h/a.PNG'' = 1"
proof -
  let ?urls = "[''h/b.svg'', ''h/x.txt'', ''h/a.PNG'', ''h/b.svg'', ''h/c.png'', ''h/a.PNG'']"
  have d: "spec_first_seen (filter has_img_ext ?urls) = [''h/b.svg'', ''h/a.PNG'', ''h/c.png'']"
    by code_simp
  have sc: "score_url ''h/b.svg'' = 5" "score_url ''h/a.PNG'' = 14" "score_url ''h/c.png'' = 14"
    by code_simp+
  have s: "sort_key (\<lambda>u. - score_url u) (spec_first_seen (filter has_img_ext ?urls)) =
             [''h/a.PNG'', ''h/c.png'', ''h/b.svg'']"
    unfolding d by (simp add: sc)
  have "has_img_ext ''h/a.PNG''"
    by code_simp
  then have m: "''h/a.PNG'' \<in> set ?urls \<and> has_img_ext ''h/a.PNG''"
    by simp
  have e: "find_candidate_image_urls ?urls = [''h/a.PNG'', ''h/c.png'', ''h/b.svg'']"
    using discovery_output [of ?urls, THEN conjunct1] s by (rule trans)
  have "count_list (find_candidate_image_urls ?urls) ''h/a.PNG'' =
          (if ''h/a.PNG'' \<in> set ?urls \<and> has_img_ext ''h/a.PNG'' then 1 else 0)"
    by (rule discovery_output [of ?urls, THEN conjunct2, THEN conjunct2, THEN conjunct1,
          THEN spec])
  then have c: "count_list (find_candidate_image_urls ?urls) ''h/a.PNG'' = 1"
    using m by (simp only: simp_thms if_True)
  from e c show ?thesis by (rule conjI)
qed


section \<open>Properties of the selection\<close>

lemma selection_pass_find:
  "selection_pass wanted candidates chosen =
     (case find (\<lambda>u. \<not> is_blocked (lower u) \<and> wanted (lower u) \<and> is_raster (lower u))
             candidates of
        None \<Rightarrow> chosen
      | Some u \<Rightarrow> Some u)"
  by (induction candidates) (simp_all add: Let_def)

lemma is_raster_nonempty: "is_raster (lower u) \<Longrightarrow> u \<noteq> []"
proof
  assume r: "is_raster (lower u)" and "u = []"
  have "\<not> is_raster []" by code_simp
  with r \<open>u = []\<close> show False by (simp add: lower_def)
qed

lemma find_raster_nonempty:
  assumes "find P candidates = Some u" and "\<And>v. P v \<Longrightarrow> is_raster (lower v)"
  shows "u \<noteq> []"
proof -
  have "P u" using assms(1) by (auto simp: find_Some_iff)
  then show ?thesis using assms(2) is_raster_nonempty by blast
qed

lemma first_candidate_again:
  "(case first_candidate candidates of
      Inl e \<Rightarrow> Inl e
    | Inr c \<Rightarrow> if c = [] then first_candidate candidates else Inr c) =
   first_candidate candidates"
  by (cases candidates) (simp_all add: first_candidate_def)

lemma choose_candidate_passes:
  "choose_candidate candidates =
     (case find (\<lambda>u. \<not> is_blocked (lower u) \<and> str_in ''cyber'' (lower u)
                     \<and> is_raster (lower u)) candidates of
        Some u \<Rightarrow> Inr u
      | None \<Rightarrow>
     (case find (\<lambda>u. \<not> is_blocked (lower u)
                     \<and> (str_in ''badge'' (lower u) \<or> str_in ''merit'' (lower u))
                     \<and> is_raster (lower u)) candidates of
        Some u \<Rightarrow> Inr u
      | None \<Rightarrow>
     (case find (\<lambda>u. \<not> is_blocked (lower u) \<and> is_raster (lower u)) candidates of
        Some u \<Rightarrow> Inr u
      | None \<Rightarrow> first_candidate candidates)))"
proof -
  let ?p1 = "\<lambda>u. \<not> is_blocked (lower u) \<and> str_in ''cyber'' (lower u) \<and> is_raster (lower u)"
  let ?p2 = "\<lambda>u. \<not> is_blocked (lower u)
                \<and> (str_in ''badge'' (lower u) \<or> str_in ''merit'' (lower u))
                \<and> is_raster (lower u)"
  let ?p3 = "\<lambda>u. \<not> is_blocked (lower u) \<and> is_raster (lower u)"
  have ne: "u \<noteq> []"
    if "find ?p1 candidates = Some u \<or> find ?p2 candidates = Some u
        \<or> find ?p3 candidates = Some u" for u
    using that find_raster_nonempty [of ?p1 candidates u]
      find_raster_nonempty [of ?p2 candidates u] find_raster_nonempty [of ?p3 candidates u]
    by blast
  show ?thesis
  proof (cases "find ?p1 candidates")
    case (Some u)
    with ne [of u] show ?thesis
      by (simp add: choose_candidate_def selection_pass_find falsy_def)
  next
    case n1: None
    show ?thesis
    proof (cases "find ?p2 candidates")
      case (Some u)
      with n1 ne [of u] show ?thesis
        by (simp add: choose_candidate_def selection_pass_find falsy_def)
    next
      case n2: None
      show ?thesis
      proof (cases "find ?p3 candidates")
        case (Some u)
        with n1 n2 ne [of u] show ?thesis
          by (simp add: choose_candidate_def selection_pass_find falsy_def)
      next
        case None
        with n1 n2 show ?thesis
          by (simp add: choose_candidate_def selection_pass_find falsy_def
                first_candidate_again)
      qed
    qed
  qed
qed

text \<open>
  C2. The selection is the first match of the earliest pass that has one: each pass
  looks for the first candidate that is not blocked, ends lowercased in a raster
  extension and passes the keyword test of the pass (\<^verbatim>\<open>cyber\<close>; \<^verbatim>\<open>badge\<close> or
  \<^verbatim>\<open>merit\<close>; none), and the fourth step takes the first candidate. In particular,
  when no candidate contains \<^verbatim>\<open>cyber\<close> and some candidate that is not blocked and
  ends in a raster extension contains \<^verbatim>\<open>badge\<close> or \<^verbatim>\<open>merit\<close>, the first such
  candidate is selected. Keywords and extensions are tested on the lowercased URL, as
  the code does.
\<close>

theorem selection_pass_order:
  "choose_candidate candidates =
     (case find (\<lambda>u. \<not> is_blocked (lower u) \<and> str_in ''cyber'' (lower u)
                     \<and> is_raster (lower u)) candidates of
        Some u \<Rightarrow> Inr u
      | None \<Rightarrow>
     (case find (\<lambda>u. \<not> is_blocked (lower u)
                     \<and> (str_in ''badge'' (lower u) \<or> str_in ''merit'' (lower u))
                     \<and> is_raster (lower u)) candidates of
        Some u \<Rightarrow> Inr u
      | None \<Rightarrow>
     (case find (\<lambda>u. \<not> is_blocked (lower u) \<and> is_raster (lower u)) candidates of
        Some u \<Rightarrow> Inr u
      | None \<Rightarrow> first_candidate candidates)))
   \<and> ((\<forall>u \<in> set candidates. \<not> str_in ''cyber'' (lower u))
        \<and> find (\<lambda>u. \<not> is_blocked (lower u)
                     \<and> (str_in ''badge'' (lower u) \<or> str_in ''merit'' (lower u))
                     \<and> is_raster (lower u)) candidates = Some b
       \<longrightarrow> choose_candidate candidates = Inr b)"
proof (rule conjI)
  show "choose_candidate candidates =
     (case find (\<lambda>u. \<not> is_blocked (lower u) \<and> str_in ''cyber'' (lower u)
                     \<and> is_raster (lower u)) candidates of
        Some u \<Rightarrow> Inr u
      | None \<Rightarrow>
     (case find (\<lambda>u. \<not> is_blocked (lower u)
                     \<and> (str_in ''badge'' (lower u) \<or> str_in ''merit'' (lower u))
                     \<and> is_raster (lower u)) candidates of
        Some u \<Rightarrow> Inr u
      | None \<Rightarrow>
     (case find (\<lambda>u. \<not> is_blocked (lower u) \<and> is_raster (lower u)) candidates of
        Some u \<Rightarrow> Inr u
      | None \<Rightarrow> first_candidate candidates)))"
    by (rule choose_candidate_passes)
next
  show "(\<forall>u \<in> set candidates. \<not> str_in ''cyber'' (lower u))
        \<and> find (\<lambda>u. \<not> is_blocked (lower u)
                     \<and> (str_in ''badge'' (lower u) \<or> str_in ''merit'' (lower u))
                     \<and> is_raster (lower u)) candidates = Some b
       \<longrightarrow> choose_candidate candidates = Inr b"
  proof
    assume h: "(\<forall>u \<in> set candidates. \<not> str_in ''cyber'' (lower u))
        \<and> find (\<lambda>u. \<not> is_blocked (lower u)
                     \<and> (str_in ''badge'' (lower u) \<or> str_in ''merit'' (lower u))
                     \<and> is_raster (lower u)) candidates = Some b"
    then have "find (\<lambda>u. \<not> is_blocked (lower u) \<and> str_in ''cyber'' (lower u)
                     \<and> is_raster (lower u)) candidates = None"
      by (auto simp: find_None_iff)
    with h show "choose_candidate candidates = Inr b"
      by (simp add: choose_candidate_passes)
  qed
qed

theorem selection_pass_order_witness:
  "list_all (\<lambda>u. \<not> str_in ''cyber'' (lower u))
     [''h/x.png'', ''h/logo-badge.png'', ''h/Merit.JPG'', ''h/badge.png'']
   \<and> find (\<lambda>u. \<not> is_blocked (lower u)
                \<and> (str_in ''badge'' (lower u) \<or> str_in ''merit'' (lower u))
                \<and> is_raster (lower u))
        [''h/x.png'', ''h/logo-badge.png'', ''h/Merit.JPG'', ''h/badge.png'']
      = Some ''h/Merit.JPG''
   \<and> choose_candidate [''h/x.png'', ''h/logo-badge.png'', ''h/Merit.JPG'', ''h/badge.png'']
      = Inr ''h/Merit.JPG''"
proof -
  let ?cs = "[''h/x.png'', ''h/logo-badge.png'', ''h/Merit.JPG'', ''h/badge.png'']"
  have h0: "list_all (\<lambda>u. \<not> str_in ''cyber'' (lower u)) ?cs"
    by code_simp
  have h1: "\<forall>u \<in> set ?cs. \<not> str_in ''cyber'' (lower u)"
    using h0 unfolding list_all_iff .
  have h2: "find (\<lambda>u. \<not> is_blocked (lower u)
                \<and> (str_in ''badge'' (lower u) \<or> str_in ''merit'' (lower u))
                \<and> is_raster (lower u)) ?cs = Some ''h/Merit.JPG''"
    by code_simp
  have r: "choose_candidate ?cs = Inr ''h/Merit.JPG''"
    by (rule selection_pass_order [of ?cs "''h/Merit.JPG''", THEN conjunct2, THEN mp,
          OF conjI [OF h1 h2]])
  show ?thesis
    by (rule conjI [OF h0 conjI [OF h2 r]])
qed


section \<open>Properties of \<^verbatim>\<open>main\<close>\<close>

lemma choose_candidate_Nil: "choose_candidate [] = Inl IndexError"
  by (simp add: choose_candidate_def falsy_def first_candidate_def)

lemma switch_to_raster_find:
  "switch_to_raster env candidates cur w =
     (case find (\<lambda>u. is_raster (lower u)) candidates of
        None \<Rightarrow> (Inr cur, w)
      | Some r \<Rightarrow>
          (case http_get env r of
             Inl e \<Rightarrow> (Inl e, w\<lparr>requested := requested w @ [r]\<rparr>)
           | Inr data \<Rightarrow>
               (Inr (r, data),
                w\<lparr>requested := requested w @ [r],
                  written := written w @ [(out_src_path (source_ext env r), data)]\<rparr>)))"
  by (induction candidates)
     (simp_all add: download_bytes_def save_source_def split: sum.splits)

lemma main_svg_switch:
  assumes "find_candidate_image_urls urls = candidates"
    and "choose_candidate candidates = Inr chosen"
    and "http_get env chosen = Inr svg_data"
    and "lower (source_ext env chosen) = ''.svg''"
    and "find (\<lambda>u. is_raster (lower u)) candidates = Some r"
    and "http_get env r = Inr data"
  shows "main env urls w =
     (open_image env r data,
      w\<lparr>requested := requested w @ [chosen, r],
        written := written w @ [(out_src_path (source_ext env chosen), svg_data),
                                (out_src_path (source_ext env r), data)]\<rparr>)"
proof -
  have "candidates \<noteq> []"
    using assms(2) choose_candidate_Nil by auto
  then show ?thesis
    using assms
    by (simp add: main_def download_bytes_def save_source_def switch_to_raster_find)
qed

lemma main_svg_keep:
  assumes "find_candidate_image_urls urls = candidates"
    and "choose_candidate candidates = Inr chosen"
    and "http_get env chosen = Inr svg_data"
    and "lower (source_ext env chosen) = ''.svg''"
    and "find (\<lambda>u. is_raster (lower u)) candidates = None"
  shows "main env urls w =
     (open_image env chosen svg_data,
      w\<lparr>requested := requested w @ [chosen],
        written := written w @ [(out_src_path (source_ext env chosen), svg_data)]\<rparr>)"
proof -
  have "candidates \<noteq> []"
    using assms(2) choose_candidate_Nil by auto
  then show ?thesis
    using assms
    by (simp add: main_def download_bytes_def save_source_def switch_to_raster_find)
qed

text \<open>
  C8. When the discovery returns no candidate, \<^verbatim>\<open>main\<close> ends with
  \<^verbatim>\<open>SystemExit("No candidate images found on page")\<close>, whose exit status is not zero;
  nothing has been requested or written, and there is no chosen image.
\<close>

theorem no_candidates_fatal:
  assumes "find_candidate_image_urls urls = []"
  shows "main env urls w = (Inl (SystemExit ''No candidate images found on page''), w)
    \<and> exit_status (SystemExit ''No candidate images found on page'') \<noteq> 0"
  using assms by (simp add: main_def)

theorem no_candidates_fatal_witness:
  "find_candidate_image_urls [''http://h/x.txt'', ''http://h/page''] = []
   \<and> main example_env [''http://h/x.txt'', ''http://h/page''] empty_world =
       (Inl (SystemExit ''No candidate images found on page''), empty_world)"
proof -
  have u: "uniquify [''http://h/x.txt'', ''http://h/page''] [] {} = []"
    by code_simp
  have h: "find_candidate_image_urls [''http://h/x.txt'', ''http://h/page''] = []"
    unfolding find_candidate_image_urls_def u by simp
  show ?thesis
    by (rule conjI [OF h no_candidates_fatal [OF h, THEN conjunct1]])
qed

text \<open>
  The example run: the page refers to a vector image and to a raster image whose URL
  contains a blocked keyword.
\<close>

lemma example_candidates:
  "find_candidate_image_urls [''http://h/a.svg'', ''http://h/logo.png''] =
     [''http://h/a.svg'', ''http://h/logo.png'']"
proof -
  have u: "uniquify [''http://h/a.svg'', ''http://h/logo.png''] [] {} =
             [''http://h/a.svg'', ''http://h/logo.png'']"
    by code_simp
  have sc: "score_url ''http://h/a.svg'' = 5" "score_url ''http://h/logo.png'' = - 1"
    by code_simp+
  show ?thesis
    unfolding find_candidate_image_urls_def u by (simp add: sc)
qed

lemma example_choice:
  "choose_candidate [''http://h/a.svg'', ''http://h/logo.png''] = Inr ''http://h/a.svg''"
  by code_simp

lemma example_requests:
  "http_get example_env ''http://h/a.svg'' = Inr ''<svg/>''"
  "http_get example_env ''http://h/logo.png'' = Inr ''PNG''"
  by (simp_all add: example_env_def)

lemma example_exts:
  "lower (source_ext example_env ''http://h/a.svg'') = ''.svg''"
  "out_src_path (source_ext example_env ''http://h/a.svg'') =
     ''/workspace/assets/img/cybersecurity-badge-source.svg''"
  "out_src_path (source_ext example_env ''http://h/logo.png'') =
     ''/workspace/assets/img/cybersecurity-badge-source.png''"
  by code_simp+

lemma example_raster:
  "find (\<lambda>u. is_raster (lower u)) [''http://h/a.svg'', ''http://h/logo.png''] =
     Some ''http://h/logo.png''"
  by code_simp

lemma example_open:
  "open_image example_env ''http://h/logo.png'' ''PNG'' =
     Inr \<lparr>opened_url = ''http://h/logo.png'', opened_data = ''PNG'', opened_image = 1\<rparr>"
  by (simp add: open_image_def example_env_def)

lemma example_vector_only:
  "find_candidate_image_urls [''http://h/a.svg''] = [''http://h/a.svg'']"
  "choose_candidate [''http://h/a.svg''] = Inr ''http://h/a.svg''"
  "find (\<lambda>u. is_raster (lower u)) [''http://h/a.svg''] = None"
proof -
  have u: "uniquify [''http://h/a.svg''] [] {} = [''http://h/a.svg'']"
    by code_simp
  show "find_candidate_image_urls [''http://h/a.svg''] = [''http://h/a.svg'']"
    unfolding find_candidate_image_urls_def u by simp
  show "choose_candidate [''http://h/a.svg''] = Inr ''http://h/a.svg''"
    by code_simp
  show "find (\<lambda>u. is_raster (lower u)) [''http://h/a.svg''] = None"
    by code_simp
qed

lemma example_open_vector:
  "open_image example_env ''http://h/a.svg'' ''<svg/>'' =
     Inl (SystemExit ''Failed to open image from http://h/a.svg: cannot identify image file'')"
  by (simp add: open_image_def example_env_def)

text \<open>
  C3, as the code has it. When the extension of the chosen URL's path, lowercased, is
  \<^verbatim>\<open>.svg\<close> and some candidate ends, lowercased, in a raster extension, the first such
  candidate in ranked order replaces the chosen image: its bytes are requested, written
  to the file named by the fixed stem and the raster URL's own extension, after the
  vector file, which is not removed, and handed to the decode step. Without a raster
  candidate the vector bytes go to the decode step unchanged.
\<close>

theorem vector_substitution:
  assumes "find_candidate_image_urls urls = candidates"
    and "choose_candidate candidates = Inr chosen"
    and "http_get env chosen = Inr svg_data"
    and "lower (source_ext env chosen) = ''.svg''"
  shows "(find (\<lambda>u. is_raster (lower u)) candidates = Some r \<and> http_get env r = Inr data
      \<longrightarrow> main env urls w =
            (open_image env r data,
             w\<lparr>requested := requested w @ [chosen, r],
               written := written w @ [(out_src_path (source_ext env chosen), svg_data),
                                       (out_src_path (source_ext env r), data)]\<rparr>))
    \<and> (find (\<lambda>u. is_raster (lower u)) candidates = None
      \<longrightarrow> main env urls w =
            (open_image env chosen svg_data,
             w\<lparr>requested := requested w @ [chosen],
               written := written w @ [(out_src_path (source_ext env chosen), svg_data)]\<rparr>))"
  using main_svg_switch [OF assms, of r data w] main_svg_keep [OF assms, of w]
  by blast

theorem vector_substitution_witness:
  "find_candidate_image_urls [''http://h/a.svg'', ''http://h/logo.png''] =
     [''http://h/a.svg'', ''http://h/logo.png'']
   \<and> choose_candidate [''http://h/a.svg'', ''http://h/logo.png''] = Inr ''http://h/a.svg''
   \<and> http_get example_env ''http://h/a.svg'' = Inr ''<svg/>''
   \<and> lower (source_ext example_env ''http://h/a.svg'') = ''.svg''
   \<and> find (\<lambda>u. is_raster (lower u)) [''http://h/a.svg'', ''http://h/logo.png''] =
       Some ''http://h/logo.png''
   \<and> http_get example_env ''http://h/logo.png'' = Inr ''PNG''
   \<and> main example_env [''http://h/a.svg'', ''http://h/logo.png''] empty_world =
       (Inr \<lparr>opened_url = ''http://h/logo.png'', opened_data = ''PNG'', opened_image = 1\<rparr>,
        \<lparr>requested = [''http://h/a.svg'', ''http://h/logo.png''],
          written = [(''/workspace/assets/img/cybersecurity-badge-source.svg'', ''<svg/>''),
                     (''/workspace/assets/img/cybersecurity-badge-source.png'', ''PNG'')]\<rparr>)
   \<and> find (\<lambda>u. is_raster (lower u)) [''http://h/a.svg''] = None
   \<and> main example_env [''http://h/a.svg''] empty_world =
       (Inl (SystemExit
          ''Failed to open image from http://h/a.svg: cannot identify image file''),
        \<lparr>requested = [''http://h/a.svg''],
          written = [(''/workspace/assets/img/cybersecurity-badge-source.svg'', ''<svg/>'')]\<rparr>)"
proof -
  have m: "main example_env [''http://h/a.svg'', ''http://h/logo.png''] empty_world =
       (open_image example_env ''http://h/logo.png'' ''PNG'',
        empty_world\<lparr>requested := requested empty_world @ [''http://h/a.svg'', ''http://h/logo.png''],
          written := written empty_world @
            [(out_src_path (source_ext example_env ''http://h/a.svg''), ''<svg/>''),
             (out_src_path (source_ext example_env ''http://h/logo.png''), ''PNG'')]\<rparr>)"
    by (rule vector_substitution [OF example_candidates example_choice example_requests(1)
          example_exts(1), THEN conjunct1, THEN mp,
          OF conjI [OF example_raster example_requests(2)]])
  have v: "main example_env [''http://h/a.svg'', ''http://h/logo.png''] empty_world =
       (Inr \<lparr>opened_url = ''http://h/logo.png'', opened_data = ''PNG'', opened_image = 1\<rparr>,
        \<lparr>requested = [''http://h/a.svg'', ''http://h/logo.png''],
          written = [(''/workspace/assets/img/cybersecurity-badge-source.svg'', ''<svg/>''),
                     (''/workspace/assets/img/cybersecurity-badge-source.png'', ''PNG'')]\<rparr>)"
    unfolding m example_open example_exts by (simp add: empty_world_def)
  have k: "main example_env [''http://h/a.svg''] empty_world =
       (open_image example_env ''http://h/a.svg'' ''<svg/>'',
        empty_world\<lparr>requested := requested empty_world @ [''http://h/a.svg''],
          written := written empty_world @
            [(out_src_path (source_ext example_env ''http://h/a.svg''), ''<svg/>'')]\<rparr>)"
    by (rule vector_substitution [OF example_vector_only(1) example_vector_only(2)
          example_requests(1) example_exts(1), THEN conjunct2, THEN mp,
          OF example_vector_only(3)])
  have n: "main example_env [''http://h/a.svg''] empty_world =
       (Inl (SystemExit
          ''Failed to open image from http://h/a.svg: cannot identify image file''),
        \<lparr>requested = [''http://h/a.svg''],
          written = [(''/workspace/assets/img/cybersecurity-badge-source.svg'', ''<svg/>'')]\<rparr>)"
    unfolding k example_open_vector example_exts by (simp add: empty_world_def)
  show ?thesis
    by (rule conjI [OF example_candidates conjI [OF example_choice
          conjI [OF example_requests(1) conjI [OF example_exts(1)
          conjI [OF example_raster conjI [OF example_requests(2)
          conjI [OF v conjI [OF example_vector_only(3) n]]]]]]]])
qed

text \<open>
  C3 as the spec states it fails: the raster image is not persisted in place of the
  vector image. In the example run the raster bytes go to a second file, and the file
  with the vector bytes is still there at the end.
\<close>

theorem vector_file_remains:
  "written (snd (main example_env [''http://h/a.svg'', ''http://h/logo.png''] empty_world)) =
     [(''/workspace/assets/img/cybersecurity-badge-source.svg'', ''<svg/>''),
      (''/workspace/assets/img/cybersecurity-badge-source.png'', ''PNG'')]
   \<and> file_content
        (snd (main example_env [''http://h/a.svg'', ''http://h/logo.png''] empty_world))
        ''/workspace/assets/img/cybersecurity-badge-source.svg'' = Some ''<svg/>''"
proof -
  have m: "main example_env [''http://h/a.svg'', ''http://h/logo.png''] empty_world =
       (open_image example_env ''http://h/logo.png'' ''PNG'',
        empty_world\<lparr>requested := requested empty_world @ [''http://h/a.svg'', ''http://h/logo.png''],
          written := written empty_world @
            [(out_src_path (source_ext example_env ''http://h/a.svg''), ''<svg/>''),
             (out_src_path (source_ext example_env ''http://h/logo.png''), ''PNG'')]\<rparr>)"
    by (rule main_svg_switch [OF example_candidates example_choice example_requests(1)
          example_exts(1) example_raster example_requests(2)])
  have w: "written (snd (main example_env [''http://h/a.svg'', ''http://h/logo.png'']
             empty_world)) =
     [(''/workspace/assets/img/cybersecurity-badge-source.svg'', ''<svg/>''),
      (''/workspace/assets/img/cybersecurity-badge-source.png'', ''PNG'')]"
    unfolding m example_exts by (simp add: empty_world_def)
  have f: "file_content
        (snd (main example_env [''http://h/a.svg'', ''http://h/logo.png''] empty_world))
        ''/workspace/assets/img/cybersecurity-badge-source.svg'' = Some ''<svg/>''"
    unfolding file_content_def w by simp
  show ?thesis
    by (rule conjI [OF w f])
qed

lemma svg_not_raster: "endswith l ''.svg'' \<Longrightarrow> \<not> is_raster l"
  using endswith_exclusive [of l "''.svg''"] ext_incomparable
  by (auto simp: is_raster_def RASTER_PREF_def)

text \<open>
  C9. When the chosen URL ends, lowercased, in \<^verbatim>\<open>.svg\<close>, it is the first candidate,
  taken by the last step of the selection, and every candidate that ends in a raster
  extension contains a blocked keyword. The scan of the vector substitution tests the
  extension only: the first raster candidate it finds is blocked, and when the scan
  runs and the requests succeed, that candidate is the image that goes on.
\<close>

theorem substitution_ignores_blocklist:
  assumes "choose_candidate candidates = Inr chosen"
    and "endswith (lower chosen) ''.svg''"
  shows "first_candidate candidates = Inr chosen
    \<and> (\<forall>u \<in> set candidates. is_raster (lower u) \<longrightarrow> is_blocked (lower u))
    \<and> (find (\<lambda>u. is_raster (lower u)) candidates = Some r
        \<longrightarrow> is_blocked (lower r)
          \<and> (find_candidate_image_urls urls = candidates
              \<and> http_get env chosen = Inr svg_data
              \<and> lower (source_ext env chosen) = ''.svg''
              \<and> http_get env r = Inr data
             \<longrightarrow> fst (main env urls w) = open_image env r data))"
proof -
  let ?p1 = "\<lambda>u. \<not> is_blocked (lower u) \<and> str_in ''cyber'' (lower u) \<and> is_raster (lower u)"
  let ?p2 = "\<lambda>u. \<not> is_blocked (lower u)
                \<and> (str_in ''badge'' (lower u) \<or> str_in ''merit'' (lower u))
                \<and> is_raster (lower u)"
  let ?p3 = "\<lambda>u. \<not> is_blocked (lower u) \<and> is_raster (lower u)"
  have nr: "\<not> is_raster (lower chosen)"
    using assms(2) by (rule svg_not_raster)
  have no: "find P candidates \<noteq> Some chosen" if "\<And>v. P v \<Longrightarrow> is_raster (lower v)" for P
    using that nr by (auto simp: find_Some_iff)
  have n1: "find ?p1 candidates = None"
    using assms(1) no [of ?p1] choose_candidate_passes [of candidates]
    by (auto split: option.splits)
  have n2: "find ?p2 candidates = None"
    using assms(1) n1 no [of ?p2] choose_candidate_passes [of candidates]
    by (auto split: option.splits)
  have n3: "find ?p3 candidates = None"
    using assms(1) n1 n2 no [of ?p3] choose_candidate_passes [of candidates]
    by (auto split: option.splits)
  have first: "first_candidate candidates = Inr chosen"
    using assms(1) n1 n2 n3 choose_candidate_passes [of candidates] by simp
  have blocked: "\<forall>u \<in> set candidates. is_raster (lower u) \<longrightarrow> is_blocked (lower u)"
    using n3 by (auto simp: find_None_iff)
  have scan: "find (\<lambda>u. is_raster (lower u)) candidates = Some r
        \<longrightarrow> is_blocked (lower r)
          \<and> (find_candidate_image_urls urls = candidates
              \<and> http_get env chosen = Inr svg_data
              \<and> lower (source_ext env chosen) = ''.svg''
              \<and> http_get env r = Inr data
             \<longrightarrow> fst (main env urls w) = open_image env r data)"
  proof
    assume f: "find (\<lambda>u. is_raster (lower u)) candidates = Some r"
    then have "r \<in> set candidates \<and> is_raster (lower r)"
      by (auto simp: find_Some_iff)
    with blocked have b: "is_blocked (lower r)" by blast
    have "fst (main env urls w) = open_image env r data"
      if "find_candidate_image_urls urls = candidates \<and> http_get env chosen = Inr svg_data
          \<and> lower (source_ext env chosen) = ''.svg'' \<and> http_get env r = Inr data"
      using that main_svg_switch [of urls candidates chosen env svg_data r data w] assms(1) f
      by simp
    with b show "is_blocked (lower r)
          \<and> (find_candidate_image_urls urls = candidates
              \<and> http_get env chosen = Inr svg_data
              \<and> lower (source_ext env chosen) = ''.svg''
              \<and> http_get env r = Inr data
             \<longrightarrow> fst (main env urls w) = open_image env r data)"
      by blast
  qed
  show ?thesis
    by (rule conjI [OF first conjI [OF blocked scan]])
qed

theorem substitution_ignores_blocklist_witness:
  "choose_candidate [''http://h/a.svg'', ''http://h/logo.png''] = Inr ''http://h/a.svg''
   \<and> endswith (lower ''http://h/a.svg'') ''.svg''
   \<and> find (\<lambda>u. is_raster (lower u)) [''http://h/a.svg'', ''http://h/logo.png''] =
       Some ''http://h/logo.png''
   \<and> is_blocked (lower ''http://h/logo.png'')
   \<and> fst (main example_env [''http://h/a.svg'', ''http://h/logo.png''] empty_world) =
       Inr \<lparr>opened_url = ''http://h/logo.png'', opened_data = ''PNG'', opened_image = 1\<rparr>"
proof -
  let ?cs = "[''http://h/a.svg'', ''http://h/logo.png'']"
  have e: "endswith (lower ''http://h/a.svg'') ''.svg''"
    by code_simp
  note t = substitution_ignores_blocklist [OF example_choice e, of "''http://h/logo.png''"
      ?cs example_env "''<svg/>''" "''PNG''" empty_world,
      THEN conjunct2, THEN conjunct2, THEN mp, OF example_raster]
  have b: "is_blocked (lower ''http://h/logo.png'')"
    by (rule t [THEN conjunct1])
  have "fst (main example_env ?cs empty_world) =
          open_image example_env ''http://h/logo.png'' ''PNG''"
    by (rule t [THEN conjunct2, THEN mp,
          OF conjI [OF example_candidates conjI [OF example_requests(1)
             conjI [OF example_exts(1) example_requests(2)]]]])
  then have v: "fst (main example_env ?cs empty_world) =
       Inr \<lparr>opened_url = ''http://h/logo.png'', opened_data = ''PNG'', opened_image = 1\<rparr>"
    by (simp only: example_open)
  show ?thesis
    by (rule conjI [OF example_choice conjI [OF e conjI [OF example_raster conjI [OF b v]]]])
qed


section \<open>Properties of \<^verbatim>\<open>to_square_rgba\<close>\<close>

lemma crop_box_square:
  assumes "crop_box w h = (x0, y0, x1, y1)"
  shows "x1 - x0 = int (min w h)" and "y1 - y0 = int (min w h)"
    and "0 \<le> x0" and "0 \<le> y0" and "x1 \<le> int w" and "y1 \<le> int h"
  using assms by (auto simp: crop_box_def Let_def min_def)

lemma crop_box_centred:
  assumes "crop_box w h = (x0, y0, x1, y1)"
  shows "x0 \<le> int w - x1" and "int w - x1 \<le> x0 + 1"
    and "y0 \<le> int h - y1" and "int h - y1 \<le> y0 + 1"
  using assms by (auto simp: crop_box_def Let_def min_def)

lemma ring_width_cases: "ring_width side = (if side < 64 then 1 else side div 32)"
  by (auto simp: ring_width_def max_def)

lemma mask_box_accepted:
  "0 < side \<Longrightarrow>
     ellipse pil im (mask_box side) fill outline width =
       Inr (pil_ellipse pil im (mask_box side) fill outline width)"
  by (simp add: ellipse_def mask_box_def)

lemma ring_box_accepted:
  "3 \<le> side \<Longrightarrow>
     ellipse pil im (ring_box side) fill outline width =
       Inr (pil_ellipse pil im (ring_box side) fill outline width)"
  by (simp add: ellipse_def ring_box_def)

lemma ring_box_inverted:
  "side < 3 \<Longrightarrow>
     ellipse pil im (ring_box side) fill outline width =
       Inl (ValueError ''x1 must be greater than or equal to x0'')"
  by (simp add: ellipse_def ring_box_def)

lemma mask_box_inverted:
  "ellipse pil im (mask_box 0) fill outline width =
     Inl (ValueError ''x1 must be greater than or equal to x0'')"
  by (simp add: ellipse_def mask_box_def)

text \<open>
  From a smaller side of 3 on, the function returns the composite of the masked crop
  and the ring, made with the arguments the script computes.
\<close>

lemma to_square_rgba_returns:
  assumes "pil_size pil (ensure_rgba pil img) = (w, h)" and "3 \<le> min w h"
  shows "to_square_rgba pil img =
     Inr (pil_alpha_composite pil
            (pil_paste pil (pil_new pil ''RGBA'' (min w h, min w h) (RGBA 0 0 0 0))
               (pil_crop pil (ensure_rgba pil img) (crop_box w h)) (0, 0)
               (pil_ellipse pil (pil_new pil ''L'' (min w h, min w h) (Grey 0))
                  (mask_box (min w h)) (Some (Grey 255)) None 1))
            (pil_ellipse pil (pil_new pil ''RGBA'' (min w h, min w h) (RGBA 0 0 0 0))
               (ring_box (min w h)) None (Some (RGBA 255 215 0 180))
               (ring_width (min w h))))"
proof -
  have "0 < min w h" using assms(2) by simp
  then show ?thesis
    using assms
    by (simp add: to_square_rgba_def Let_def mask_box_accepted ring_box_accepted)
qed

text \<open>
  With a library in which a new image has the size asked for and pasting and
  compositing keep the size of the image they work on, the result is a square of the
  smaller side.
\<close>

lemma to_square_rgba_size:
  assumes "pil_size pil (ensure_rgba pil img) = (w, h)" and "3 \<le> min w h"
    and "\<And>m sz c. pil_size pil (pil_new pil m sz c) = sz"
    and "\<And>im src at mask. pil_size pil (pil_paste pil im src at mask) = pil_size pil im"
    and "\<And>im1 im2. pil_size pil (pil_alpha_composite pil im1 im2) = pil_size pil im1"
  shows "\<exists>out. to_square_rgba pil img = Inr out \<and> pil_size pil out = (min w h, min w h)"
  unfolding to_square_rgba_returns [OF assms(1,2)]
  by (simp add: assms(3-5))

text \<open>
  C5. The transform is to return a square buffer for every image it is given. For an
  image whose smaller side is below 3 it returns nothing: the box of the ring,
  \<^verbatim>\<open>(1, 1, side - 2, side - 2)\<close>, has its second corner before the first (for a
  side of 0 the box of the mask has), the drawing call refuses it, and the function
  ends with \<^verbatim>\<open>ValueError\<close>.
\<close>

theorem to_square_rgba_small_side:
  assumes "pil_size pil (ensure_rgba pil img) = (w, h)" and "min w h < 3"
  shows "to_square_rgba pil img =
     Inl (ValueError ''x1 must be greater than or equal to x0'')"
proof (cases "min w h = 0")
  case True
  then show ?thesis
    using assms(1) by (simp add: to_square_rgba_def Let_def mask_box_inverted)
next
  case False
  then have "0 < min w h" by simp
  then show ?thesis
    using assms
    by (simp add: to_square_rgba_def Let_def mask_box_accepted ring_box_inverted)
qed

theorem to_square_rgba_small_side_witness:
  "pil_size shape_pillow
     (ensure_rgba shape_pillow \<lparr>shape_mode = ''RGB'', shape_size = (2, 2)\<rparr>) = (2, 2)
   \<and> min (2::nat) 2 < 3
   \<and> to_square_rgba shape_pillow \<lparr>shape_mode = ''RGB'', shape_size = (2, 2)\<rparr> =
       Inl (ValueError ''x1 must be greater than or equal to x0'')
   \<and> to_square_rgba shape_pillow \<lparr>shape_mode = ''RGB'', shape_size = (640, 480)\<rparr> =
       Inr \<lparr>shape_mode = ''RGBA'', shape_size = (480, 480)\<rparr>"
proof -
  have s: "pil_size shape_pillow
     (ensure_rgba shape_pillow \<lparr>shape_mode = ''RGB'', shape_size = (2, 2)\<rparr>) = (2, 2)"
    by (simp add: shape_pillow_def ensure_rgba_def)
  have m: "min (2::nat) 2 < 3"
    by simp
  have ok: "to_square_rgba shape_pillow \<lparr>shape_mode = ''RGB'', shape_size = (640, 480)\<rparr> =
       Inr \<lparr>shape_mode = ''RGBA'', shape_size = (480, 480)\<rparr>"
    by code_simp
  show ?thesis
    by (rule conjI [OF s conjI [OF m conjI [OF to_square_rgba_small_side [OF s m] ok]]])
qed


end
